theory Spec2Isabelle
  imports Complex_Main
begin

section \<open>Randomness and errors\<close>

text \<open>
  The generator draws every random number from numpy's process-wide generator.  A run is
  modelled against a tape: the finite list of the results of the random calls, in the order
  the code makes them.  Each call takes the next entry of the tape, which must be a possible
  result of that call.  A tape that ends while the code still draws stands for a run that has
  not completed (the resampling loops of the source have no bound).

  Floating-point numbers of the source are modelled as real numbers.
\<close>

datatype draw =
    Normal real
  | Uniform real
  | Rvs "real list"
  | MvNormal "(real \<times> real) list"
  | Choice2 "nat list list"
  | Choice1 "nat list"
  | RandInt int

datatype error =
    ValueError
  | IndexError
  | ZeroDivisionError
  | OutOfTape
  | NotThisDraw

type_synonym tape = "draw list"

section \<open>datagen.py\<close>

text \<open>\<open>_weibull_estimate(cdf_value, shape, scale)\<close>\<close>

definition weibull_estimate :: "real \<Rightarrow> real \<Rightarrow> real \<Rightarrow> real" where
  "weibull_estimate cdf_value shape scale =
     (if cdf_value < 0 then 0
      else if cdf_value \<ge> 1 then 1
      else (1 - exp (- ((cdf_value / scale) powr shape)))
           / (1 - exp (- ((1 / scale) powr shape))))"

text \<open>
  The resampling loop \<open>while fuzzy_shape < 0.01\<close>: draws from the normal distribution until
  the draw is at least 0.01.
\<close>

fun draw_shape :: "tape \<Rightarrow> error + (real \<times> tape)" where
  "draw_shape [] = Inl OutOfTape"
| "draw_shape (Normal x # rest) = (if x < 0.01 then draw_shape rest else Inr (x, rest))"
| "draw_shape (_ # rest) = Inl NotThisDraw"

text \<open>\<open>fuzzy_scale = max(np.random.normal(scale, std_scale), 0.1)\<close>\<close>

fun draw_scale :: "tape \<Rightarrow> error + (real \<times> tape)" where
  "draw_scale [] = Inl OutOfTape"
| "draw_scale (Normal x # rest) = Inr (max x 0.1, rest)"
| "draw_scale (_ # rest) = Inl NotThisDraw"

text \<open>
  One turn of the loop \<open>for t in range(duration - 1)\<close>.  The loop state is the array of costs
  filled so far, \<open>cumulative_cost\<close> and \<open>prev_sample\<close>.
\<close>

definition yearly_step ::
  "real \<Rightarrow> int \<Rightarrow> real \<Rightarrow> real \<Rightarrow> nat \<Rightarrow> real list \<times> int \<times> real \<Rightarrow> real list \<times> int \<times> real" where
  "yearly_step total_cost duration fuzzy_shape fuzzy_scale t st =
     (case st of (costs, cumulative_cost, prev_sample) \<Rightarrow>
        let sample = weibull_estimate ((real t + 1) / real_of_int duration) fuzzy_shape fuzzy_scale;
            cost = \<lfloor>(sample - prev_sample) * total_cost\<rfloor>
        in (costs @ [real_of_int cost], cumulative_cost + cost, sample))"

text \<open>The body of \<open>fuzzy_weibull_cost_distribution\<close> once shape and scale are drawn.\<close>

definition weibull_costs :: "real \<Rightarrow> int \<Rightarrow> real \<Rightarrow> real \<Rightarrow> real list" where
  "weibull_costs total_cost duration fuzzy_shape fuzzy_scale =
     (case fold (yearly_step total_cost duration fuzzy_shape fuzzy_scale)
                [0 ..< nat (duration - 1)] ([], 0, 0) of
        (costs, cumulative_cost, prev_sample) \<Rightarrow>
          costs @ [total_cost - real_of_int cumulative_cost])"

text \<open>
  \<open>fuzzy_weibull_cost_distribution(total_cost, duration)\<close>.  The draws come first, as in the
  source; then \<open>np.zeros(duration)\<close> raises ValueError for a negative duration, and the write
  to \<open>costs[duration - 1]\<close> raises IndexError for duration 0.
\<close>

definition fuzzy_weibull_cost_distribution ::
  "real \<Rightarrow> int \<Rightarrow> tape \<Rightarrow> error + (real list \<times> tape)" where
  "fuzzy_weibull_cost_distribution total_cost duration tp =
     (case draw_shape tp of
        Inl e \<Rightarrow> Inl e
      | Inr (fuzzy_shape, tp1) \<Rightarrow>
          (case draw_scale tp1 of
             Inl e \<Rightarrow> Inl e
           | Inr (fuzzy_scale, tp2) \<Rightarrow>
               if duration < 0 then Inl ValueError
               else if duration = 0 then Inl IndexError
               else Inr (weibull_costs total_cost duration fuzzy_shape fuzzy_scale, tp2)))"


text \<open>\<open>np.rint\<close> and \<open>ndarray.round()\<close>: the nearest integer, a tie going to the even one.\<close>

definition rint :: "real \<Rightarrow> int" where
  "rint x =
     (let f = \<lfloor>x\<rfloor>; r = x - real_of_int f
      in if r < 1 / 2 then f
         else if 1 / 2 < r then f + 1
         else if even f then f else f + 1)"

text \<open>
  \<open>mvlnorm_generate_costdur(num_samples)\<close>: the draw is the \<open>num_samples \<times> 2\<close> matrix of the
  bivariate normal distribution; the result is \<open>np.rint(np.exp(data)).astype(int)\<close>, one
  (duration, cost) row per sample.
\<close>

fun mvlnorm_generate_costdur :: "nat \<Rightarrow> tape \<Rightarrow> error + ((int \<times> int) list \<times> tape)" where
  "mvlnorm_generate_costdur num_samples [] = Inl OutOfTape"
| "mvlnorm_generate_costdur num_samples (MvNormal data # rest) =
     (if length data = num_samples
      then Inr (map (\<lambda>(d, c). (rint (exp d), rint (exp c))) data, rest)
      else Inl NotThisDraw)"
| "mvlnorm_generate_costdur num_samples (_ # rest) = Inl NotThisDraw"

section \<open>synergy.py and the Project class\<close>

text \<open>
  The fields of \<open>Project\<close> and \<open>Synergy\<close>.  The field \<open>value\<close> of either class is named
  \<open>pvalue\<close> and \<open>svalue\<close> here, \<open>id\<close> is \<open>project_id\<close>.  The display name and the JSON
  conversion are not modelled.  The relation lists hold project ids (index plus one).
\<close>

record project =
  project_id :: nat
  cost :: "real list"
  pvalue :: "real list"
  duration :: int
  prerequisite_list :: "nat list"
  successor_list :: "nat list"
  exclusion_list :: "nat list"
  total_cost :: int

record synergy =
  project_ids :: "nat list"
  svalue :: int

section \<open>project.py\<close>

text \<open>
  The keyword arguments read by \<open>random_cost_dur_value\<close>.  A value distribution is given by
  its support: a draw from it is any value of the support.
\<close>

record kwargs =
  value_dist :: "(real \<Rightarrow> bool) option"
  factor :: "real option"

text \<open>The default \<open>dists.randint(1, 5)\<close>: the integers 1 to 4.\<close>

definition randint_1_5 :: "real \<Rightarrow> bool" where
  "randint_1_5 x = (x \<in> {1, 2, 3, 4})"

text \<open>\<open>np.random.random()\<close>: a number of the interval [0, 1).\<close>

fun np_random_random :: "tape \<Rightarrow> error + (real \<times> tape)" where
  "np_random_random [] = Inl OutOfTape"
| "np_random_random (Uniform u # rest) = (if 0 \<le> u \<and> u < 1 then Inr (u, rest) else Inl NotThisDraw)"
| "np_random_random (_ # rest) = Inl NotThisDraw"

text \<open>\<open>value_dist.rvs(n)\<close>: n draws from the distribution; a negative n raises.\<close>

definition rvs :: "(real \<Rightarrow> bool) \<Rightarrow> int \<Rightarrow> tape \<Rightarrow> error + (real list \<times> tape)" where
  "rvs vd n tp =
     (if n < 0 then Inl ValueError
      else case tp of
             [] \<Rightarrow> Inl OutOfTape
           | Rvs xs # rest \<Rightarrow>
               (if length xs = nat n \<and> (\<forall>x \<in> set xs. vd x) then Inr (xs, rest)
                else Inl NotThisDraw)
           | _ # rest \<Rightarrow> Inl NotThisDraw)"

text \<open>\<open>random_cost_dur_value(total_cost, duration, **kwargs)\<close>\<close>

definition random_cost_dur_value ::
  "int \<Rightarrow> int \<Rightarrow> kwargs \<Rightarrow> tape \<Rightarrow> error + (real \<times> tape)" where
  "random_cost_dur_value total_cst dur kw tp =
     (let vd = (case value_dist kw of Some d \<Rightarrow> d | None \<Rightarrow> randint_1_5);
          fac = (case factor kw of Some f \<Rightarrow> f | None \<Rightarrow> 2)
      in case np_random_random tp of
           Inl e \<Rightarrow> Inl e
         | Inr (u, tp1) \<Rightarrow>
             (case rvs vd (dur - 1) tp1 of
                Inl e \<Rightarrow> Inl e
              | Inr (xs, tp2) \<Rightarrow> Inr (u * real_of_int total_cst * fac + sum_list xs, tp2)))"

text \<open>
  The body of the loop \<open>for i in range(num_projects)\<close> of \<open>create_random_projects\<close>: the
  project of index i from its row of the cost and duration matrix.
\<close>

definition make_project :: "kwargs \<Rightarrow> nat \<Rightarrow> int \<Rightarrow> int \<Rightarrow> tape \<Rightarrow> error + (project \<times> tape)" where
  "make_project kw i dur total_cst tp =
     (case fuzzy_weibull_cost_distribution (real_of_int total_cst) dur tp of
        Inl e \<Rightarrow> Inl e
      | Inr (cst, tp1) \<Rightarrow>
          (case random_cost_dur_value total_cst dur kw tp1 of
             Inl e \<Rightarrow> Inl e
           | Inr (total_value, tp2) \<Rightarrow>
               (case fuzzy_weibull_cost_distribution total_value dur tp2 of
                  Inl e \<Rightarrow> Inl e
                | Inr (val, tp3) \<Rightarrow>
                    Inr (\<lparr> project_id = i + 1, cost = cst,
                           pvalue = map (\<lambda>v. real_of_int (rint v)) val,
                           duration = dur, prerequisite_list = [], successor_list = [],
                           exclusion_list = [], total_cost = total_cst \<rparr>, tp3))))"

fun make_projects :: "kwargs \<Rightarrow> nat \<Rightarrow> (int \<times> int) list \<Rightarrow> tape \<Rightarrow> error + (project list \<times> tape)" where
  "make_projects kw i [] tp = Inr ([], tp)"
| "make_projects kw i ((dur, total_cst) # rows) tp =
     (case make_project kw i dur total_cst tp of
        Inl e \<Rightarrow> Inl e
      | Inr (p, tp1) \<Rightarrow>
          (case make_projects kw (i + 1) rows tp1 of
             Inl e \<Rightarrow> Inl e
           | Inr (ps, tp2) \<Rightarrow> Inr (p # ps, tp2)))"

text \<open>Python's \<open>int()\<close> of a float: truncation towards zero.\<close>

definition py_int :: "real \<Rightarrow> int" where
  "py_int x = (if 0 \<le> x then \<lfloor>x\<rfloor> else \<lceil>x\<rceil>)"

text \<open>
  \<open>np.random.choice(indices, size=(num_groups, size), replace=False)\<close>: \<open>num_groups\<close> rows of
  \<open>sz\<close> entries of \<open>indices\<close>, no entry drawn twice.  It raises for a negative dimension and
  for a sample larger than the population.
\<close>

definition np_random_choice2 ::
  "nat list \<Rightarrow> int \<Rightarrow> nat \<Rightarrow> tape \<Rightarrow> error + (nat list list \<times> tape)" where
  "np_random_choice2 indices num_groups sz tp =
     (if num_groups < 0 then Inl ValueError
      else if length indices < nat num_groups * sz then Inl ValueError
      else case tp of
             [] \<Rightarrow> Inl OutOfTape
           | Choice2 groups # rest \<Rightarrow>
               (if length groups = nat num_groups \<and> (\<forall>g \<in> set groups. length g = sz)
                   \<and> distinct (concat groups) \<and> set (concat groups) \<subseteq> set indices
                then Inr (groups, rest) else Inl NotThisDraw)
           | _ # rest \<Rightarrow> Inl NotThisDraw)"

text \<open>
  \<open>np.setdiff1d(indices, groups)\<close>: the entries of \<open>indices\<close> that are in no group.  The pool
  is sorted and without duplicates from \<open>np.arange\<close> on, so the filter keeps it so.
\<close>

definition setdiff1d :: "nat list \<Rightarrow> nat list list \<Rightarrow> nat list" where
  "setdiff1d indices groups = filter (\<lambda>i. i \<notin> set (concat groups)) indices"

text \<open>The three appends to a relation list of \<open>projects[k]\<close>.\<close>

definition append_exclusion :: "nat \<Rightarrow> nat \<Rightarrow> project list \<Rightarrow> project list" where
  "append_exclusion k v ps = ps[k := (ps ! k)\<lparr> exclusion_list := exclusion_list (ps ! k) @ [v] \<rparr>]"

definition append_successor :: "nat \<Rightarrow> nat \<Rightarrow> project list \<Rightarrow> project list" where
  "append_successor k v ps = ps[k := (ps ! k)\<lparr> successor_list := successor_list (ps ! k) @ [v] \<rparr>]"

definition append_prerequisite :: "nat \<Rightarrow> nat \<Rightarrow> project list \<Rightarrow> project list" where
  "append_prerequisite k v ps =
     ps[k := (ps ! k)\<lparr> prerequisite_list := prerequisite_list (ps ! k) @ [v] \<rparr>]"

text \<open>
  \<open>_generate_exclusions_post\<close>.  For the member at position i of a group, the loop over j
  appends the id of every member at another position to its exclusion list.
\<close>

definition exclusion_inner :: "nat list \<Rightarrow> nat \<Rightarrow> nat \<Rightarrow> project list \<Rightarrow> project list" where
  "exclusion_inner grp sz i ps =
     fold (\<lambda>j ps'. if i = j then ps' else append_exclusion (grp ! i) (grp ! j + 1) ps')
          [0 ..< sz] ps"

definition exclusion_group :: "nat \<Rightarrow> nat list \<Rightarrow> project list \<Rightarrow> project list" where
  "exclusion_group sz grp ps = fold (exclusion_inner grp sz) [0 ..< sz] ps"

text \<open>
  The loop \<open>for size, prop in group_sizes\<close>.  The division by a size of 0 raises
  ZeroDivisionError.
\<close>

fun exclusions_loop ::
  "nat \<Rightarrow> (nat \<times> real) list \<Rightarrow> nat list \<Rightarrow> project list \<Rightarrow> tape \<Rightarrow> error + (project list \<times> tape)" where
  "exclusions_loop num_projects [] indices ps tp = Inr (ps, tp)"
| "exclusions_loop num_projects ((sz, prop) # rest) indices ps tp =
     (if sz = 0 then Inl ZeroDivisionError
      else case np_random_choice2 indices (py_int (prop * real num_projects / real sz)) sz tp of
             Inl e \<Rightarrow> Inl e
           | Inr (groups, tp1) \<Rightarrow>
               exclusions_loop num_projects rest (setdiff1d indices groups)
                 (fold (exclusion_group sz) groups ps) tp1)"

definition generate_exclusions_post ::
  "project list \<Rightarrow> (nat \<times> real) list \<Rightarrow> tape \<Rightarrow> error + (project list \<times> tape)" where
  "generate_exclusions_post ps group_sizes tp =
     exclusions_loop (length ps) group_sizes [0 ..< length ps] ps tp"

text \<open>
  \<open>_generate_prerequisites_post\<close>.  The group is sorted, its first member is the
  prerequisite and the members at positions 1 to size - 1 are its successors.
\<close>

definition prerequisite_group :: "nat \<Rightarrow> nat list \<Rightarrow> project list \<Rightarrow> project list" where
  "prerequisite_group sz grp ps =
     (let sorted_group = sort grp; prereq = sorted_group ! 0
      in fold (\<lambda>i ps'. let successor = sorted_group ! i
                        in append_prerequisite successor (prereq + 1)
                             (append_successor prereq (successor + 1) ps'))
              [1 ..< sz] ps)"

fun prerequisites_loop ::
  "nat \<Rightarrow> (nat \<times> real) list \<Rightarrow> nat list \<Rightarrow> project list \<Rightarrow> tape \<Rightarrow> error + (project list \<times> tape)" where
  "prerequisites_loop num_projects [] indices ps tp = Inr (ps, tp)"
| "prerequisites_loop num_projects ((sz, prop) # rest) indices ps tp =
     (if sz = 0 then Inl ZeroDivisionError
      else case np_random_choice2 indices (py_int (prop * real num_projects / real sz)) sz tp of
             Inl e \<Rightarrow> Inl e
           | Inr (groups, tp1) \<Rightarrow>
               prerequisites_loop num_projects rest (setdiff1d indices groups)
                 (fold (prerequisite_group sz) groups ps) tp1)"

definition generate_prerequisites_post ::
  "project list \<Rightarrow> (nat \<times> real) list \<Rightarrow> tape \<Rightarrow> error + (project list \<times> tape)" where
  "generate_prerequisites_post ps group_sizes tp =
     prerequisites_loop (length ps) group_sizes [0 ..< length ps] ps tp"

text \<open>
  \<open>_generate_synergies_post\<close>.  The check of a drawn grp: for the member at position
  \<open>index\<close> and each later position \<open>check_index\<close>, the test
  \<open>p2_index in p_check.exclusion_list\<close>, where \<open>p_check = projects[p_index]\<close> and \<open>p2_index\<close>
  is the entry of the group itself.  The result is the flag \<open>repeat\<close>.
\<close>

definition group_conflict :: "project list \<Rightarrow> nat list \<Rightarrow> nat \<Rightarrow> bool" where
  "group_conflict ps grp sz =
     (\<exists>index \<in> set [0 ..< sz]. \<exists>check_index \<in> set [index + 1 ..< sz].
        grp ! check_index \<in> set (exclusion_list (ps ! (grp ! index))))"

text \<open>
  The loop \<open>while repeat\<close>: \<open>np.random.choice(indices, size=size, replace=False)\<close> until a
  group passes the check.  The call raises when the pool has fewer than \<open>size\<close> entries.
\<close>

fun synergy_group :: "project list \<Rightarrow> nat list \<Rightarrow> nat \<Rightarrow> tape \<Rightarrow> error + (nat list \<times> tape)" where
  "synergy_group ps indices sz [] =
     (if length indices < sz then Inl ValueError else Inl OutOfTape)"
| "synergy_group ps indices sz (Choice1 grp # rest) =
     (if length indices < sz then Inl ValueError
      else if \<not> (length grp = sz \<and> distinct grp \<and> set grp \<subseteq> set indices) then Inl NotThisDraw
      else if group_conflict ps grp sz then synergy_group ps indices sz rest
      else Inr (grp, rest))"
| "synergy_group ps indices sz (_ # rest) =
     (if length indices < sz then Inl ValueError else Inl NotThisDraw)"

text \<open>
  \<open>np.random.randint(low, high)\<close>: an integer from \<open>low\<close> (inclusive) to \<open>high\<close> (exclusive),
  \<open>high\<close> converted to an integer; it raises ValueError when no such integer exists.
\<close>

definition np_random_randint :: "int \<Rightarrow> real \<Rightarrow> tape \<Rightarrow> error + (int \<times> tape)" where
  "np_random_randint low high tp =
     (if py_int high \<le> low then Inl ValueError
      else case tp of
             [] \<Rightarrow> Inl OutOfTape
           | RandInt v # rest \<Rightarrow>
               (if low \<le> v \<and> v < py_int high then Inr (v, rest) else Inl NotThisDraw)
           | _ # rest \<Rightarrow> Inl NotThisDraw)"

definition total_group_value :: "project list \<Rightarrow> nat list \<Rightarrow> real" where
  "total_group_value ps grp =
     fold (\<lambda>p_index total. total + sum_list (pvalue (ps ! p_index))) grp 0"

text \<open>The body of the loop \<open>for i in range(num_groups)\<close>: one synergy.\<close>

definition make_synergy :: "project list \<Rightarrow> nat list \<Rightarrow> nat \<Rightarrow> tape \<Rightarrow> error + (synergy \<times> tape)" where
  "make_synergy ps indices sz tp =
     (case synergy_group ps indices sz tp of
        Inl e \<Rightarrow> Inl e
      | Inr (grp, tp1) \<Rightarrow>
          (case np_random_randint 1 (total_group_value ps grp) tp1 of
             Inl e \<Rightarrow> Inl e
           | Inr (synergy_value, tp2) \<Rightarrow>
               Inr (\<lparr> project_ids = grp, svalue = synergy_value \<rparr>, tp2)))"

fun synergies_of_size ::
  "project list \<Rightarrow> nat list \<Rightarrow> nat \<Rightarrow> nat \<Rightarrow> synergy list \<Rightarrow> tape \<Rightarrow> error + (synergy list \<times> tape)" where
  "synergies_of_size ps indices sz 0 synergies tp = Inr (synergies, tp)"
| "synergies_of_size ps indices sz (Suc n) synergies tp =
     (case make_synergy ps indices sz tp of
        Inl e \<Rightarrow> Inl e
      | Inr (s, tp1) \<Rightarrow> synergies_of_size ps indices sz n (synergies @ [s]) tp1)"

fun synergies_loop ::
  "project list \<Rightarrow> (nat \<times> real) list \<Rightarrow> nat list \<Rightarrow> synergy list \<Rightarrow> tape \<Rightarrow> error + (synergy list \<times> tape)" where
  "synergies_loop ps [] indices synergies tp = Inr (synergies, tp)"
| "synergies_loop ps ((sz, prop) # rest) indices synergies tp =
     (if sz = 0 then Inl ZeroDivisionError
      else case synergies_of_size ps indices sz
                  (nat (py_int (prop * real (length ps) / real sz))) synergies tp of
             Inl e \<Rightarrow> Inl e
           | Inr (synergies', tp1) \<Rightarrow> synergies_loop ps rest indices synergies' tp1)"

definition generate_synergies_post ::
  "project list \<Rightarrow> (nat \<times> real) list \<Rightarrow> tape \<Rightarrow> error + (synergy list \<times> tape)" where
  "generate_synergies_post ps group_sizes tp =
     synergies_loop ps group_sizes [0 ..< length ps] [] tp"

text \<open>
  \<open>create_random_projects\<close>.  The process-wide generator is a state of its own: the call
  \<open>np.random.seed(seed)\<close> replaces it by the one the seed determines, \<open>np_random_seed seed\<close>,
  whatever it was before.  The result carries the generator as the run leaves it.
\<close>

definition create_random_projects ::
  "(int \<Rightarrow> tape) \<Rightarrow> nat \<Rightarrow> (nat \<times> real) list option \<Rightarrow> (nat \<times> real) list option \<Rightarrow>
   (nat \<times> real) list option \<Rightarrow> int \<Rightarrow> kwargs \<Rightarrow> tape \<Rightarrow>
   error + (project list \<times> synergy list \<times> tape)" where
  "create_random_projects np_random_seed num_projects prerequisite_tuples exclusion_tuples
       synergy_tuples seed kw generator =
     (let tp = np_random_seed seed
      in case mvlnorm_generate_costdur num_projects tp of
           Inl e \<Rightarrow> Inl e
         | Inr (cost_dur, tp1) \<Rightarrow>
       (case make_projects kw 0 cost_dur tp1 of
           Inl e \<Rightarrow> Inl e
         | Inr (ps, tp2) \<Rightarrow>
       (case (case exclusion_tuples of
                None \<Rightarrow> Inr (ps, tp2)
              | Some gs \<Rightarrow> generate_exclusions_post ps gs tp2) of
           Inl e \<Rightarrow> Inl e
         | Inr (ps1, tp3) \<Rightarrow>
       (case (case prerequisite_tuples of
                None \<Rightarrow> Inr (ps1, tp3)
              | Some gs \<Rightarrow> generate_prerequisites_post ps1 gs tp3) of
           Inl e \<Rightarrow> Inl e
         | Inr (ps2, tp4) \<Rightarrow>
       (case (case synergy_tuples of
                None \<Rightarrow> Inr ([], tp4)
              | Some gs \<Rightarrow> generate_synergies_post ps2 gs tp4) of
           Inl e \<Rightarrow> Inl e
         | Inr (synergy_groups, tp5) \<Rightarrow> Inr (ps2, synergy_groups, tp5))))))"

section \<open>instance_parameters.py and project_problem_instance.py\<close>

text \<open>
  \<open>InstanceParameters\<close>.  The attribute \<open>max_proj_length\<close> is not set by the constructor: it
  is absent (None) until \<open>generate_instance\<close> assigns it.
\<close>

record instance_parameters =
  num_projects :: nat
  planning_window :: int
  base_budget :: real
  yearly_budget_increase :: real
  initiation_max_proportion :: real
  ongoing_max_proportion :: real
  prerequisite_tuples :: "(nat \<times> real) list option"
  exclusion_tuples :: "(nat \<times> real) list option"
  synergy_tuples :: "(nat \<times> real) list option"
  discount_rate :: real
  kwargs :: kwargs
  max_proj_length :: "int option"

record project_problem_instance =
  projects :: "project list"
  budget :: "real list"
  initiation_budget :: "real list"
  ongoing_budget :: "real list"
  synergies :: "synergy list"
  instance_planning_window :: int
  instance_identifier :: string
  instance_num_projects :: nat
  budget_window :: nat
  instance_discount_rate :: real
  parameters :: instance_parameters

definition create_random_projects_from_param ::
  "(int \<Rightarrow> tape) \<Rightarrow> instance_parameters \<Rightarrow> int \<Rightarrow> tape \<Rightarrow>
   error + (project list \<times> synergy list \<times> tape)" where
  "create_random_projects_from_param np_random_seed params seed generator =
     create_random_projects np_random_seed (num_projects params) (prerequisite_tuples params)
       (exclusion_tuples params) (synergy_tuples params) seed (kwargs params) generator"

text \<open>The loop that finds the maximum project length, from 0.\<close>

definition max_length_of :: "project list \<Rightarrow> int" where
  "max_length_of ps = fold (\<lambda>p max_length. if duration p > max_length then duration p else max_length) ps 0"

text \<open>
  \<open>generate_instance(param, random_seed, identifier)\<close>.  The parameter object is shared with
  the caller, so the assignment to \<open>param.max_proj_length\<close> is an effect on it: the result
  is the instance, the parameter object as the call leaves it, and the generator.
  \<open>np.zeros(budget_period)\<close> raises for a negative period.
\<close>

definition generate_instance ::
  "(int \<Rightarrow> tape) \<Rightarrow> instance_parameters \<Rightarrow> int \<Rightarrow> string \<Rightarrow> tape \<Rightarrow>
   error + (project_problem_instance \<times> instance_parameters \<times> tape)" where
  "generate_instance np_random_seed param random_seed ident generator =
     (case create_random_projects_from_param np_random_seed param random_seed generator of
        Inl e \<Rightarrow> Inl e
      | Inr (random_project_list, syns, generator') \<Rightarrow>
          let max_length = max_length_of random_project_list;
              param' = param\<lparr> max_proj_length := Some max_length \<rparr>;
              budget_period = planning_window param' + the (max_proj_length param')
          in if budget_period < 0 then Inl ValueError
             else
               let bdg = map (\<lambda>y. base_budget param' + real y * yearly_budget_increase param')
                             [0 ..< nat budget_period];
                   init = map (\<lambda>b. b * initiation_max_proportion param') bdg;
                   ongo = map (\<lambda>b. b * ongoing_max_proportion param') bdg
               in Inr (\<lparr> projects = random_project_list, budget = bdg,
                         initiation_budget = init, ongoing_budget = ongo, synergies = syns,
                         instance_planning_window = planning_window param',
                         instance_identifier = ident,
                         instance_num_projects = length random_project_list,
                         budget_window = length bdg,
                         instance_discount_rate = discount_rate param',
                         parameters = param' \<rparr>, param', generator'))"

section \<open>Notions used in the statements and proofs\<close>

text \<open>
  The relation a family of relation lists stands for: the pairs of the index of a project
  and an entry of its list.
\<close>

definition rel_of :: "nat list list \<Rightarrow> (nat \<times> nat) set" where
  "rel_of ls = {(i, v). i < length ls \<and> v \<in> set (ls ! i)}"

text \<open>The fields of a project that the constraint passes never write.\<close>

definition frame :: "project \<Rightarrow> nat \<times> real list \<times> real list \<times> int \<times> int" where
  "frame p = (project_id p, cost p, pvalue p, duration p, total_cost p)"

text \<open>The links one exclusion group adds: every member to the id of every other member.\<close>

definition clique :: "nat list \<Rightarrow> (nat \<times> nat) set" where
  "clique grp = {(grp ! i, grp ! j + 1) | i j. i < length grp \<and> j < length grp \<and> i \<noteq> j}"

text \<open>
  A relation between indices and ids (index plus one) that is symmetric and holds of no
  project and itself.
\<close>

definition sym_irr :: "(nat \<times> nat) set \<Rightarrow> bool" where
  "sym_irr R = ((\<forall>a b. ((a, Suc b) \<in> R) = ((b, Suc a) \<in> R)) \<and> (\<forall>a. (a, Suc a) \<notin> R))"

text \<open>
  The links one prerequisite group adds: the member of smallest index gets the id of every
  other member as a successor, and every other member gets its id as a prerequisite.
\<close>

definition successor_links :: "nat list \<Rightarrow> (nat \<times> nat) set" where
  "successor_links grp = {(Min (set grp), s + 1) | s. s \<in> set grp \<and> s \<noteq> Min (set grp)}"

definition prerequisite_links :: "nat list \<Rightarrow> (nat \<times> nat) set" where
  "prerequisite_links grp = {(s, Min (set grp) + 1) | s. s \<in> set grp \<and> s \<noteq> Min (set grp)}"

text \<open>
  A successor relation and a prerequisite relation that are inverses of each other and
  hold of no project and itself.
\<close>

definition mutual_inverse :: "(nat \<times> nat) set \<Rightarrow> (nat \<times> nat) set \<Rightarrow> bool" where
  "mutual_inverse S P =
     ((\<forall>a b. ((a, Suc b) \<in> S) = ((b, Suc a) \<in> P))
      \<and> (\<forall>a. (a, Suc a) \<notin> S) \<and> (\<forall>a. (a, Suc a) \<notin> P))"

section \<open>A concrete run\<close>

text \<open>
  Two projects of duration 1 and total cost 1, with one group of size 2 in each of the three
  constraint passes.  The tape holds the results of the random calls in the order of the
  run: the cost and duration matrix, for each project the draws of the two allocations and
  of the value rule, then the exclusion group, the prerequisite group, the synergy group and
  the synergy value.
\<close>

definition kw0 :: kwargs where
  "kw0 = \<lparr> value_dist = None, factor = None \<rparr>"

definition project_draws :: tape where
  "project_draws = [Normal 1, Normal 1, Uniform (9 / 10), Rvs [], Normal 1, Normal 1]"

definition run_tape :: tape where
  "run_tape = MvNormal [(0, 0), (0, 0)] # project_draws @ project_draws
                @ [Choice2 [[0, 1]], Choice2 [[1, 0]], Choice1 [0, 1], RandInt 1]"

definition run_project :: "nat \<Rightarrow> nat list \<Rightarrow> nat list \<Rightarrow> nat list \<Rightarrow> project" where
  "run_project i pre suc exc =
     \<lparr> project_id = i, cost = [1], pvalue = [2], duration = 1, prerequisite_list = pre,
       successor_list = suc, exclusion_list = exc, total_cost = 1 \<rparr>"

definition run_projects :: "project list" where
  "run_projects = [run_project 1 [] [2] [2], run_project 2 [1] [] [1]]"

definition run_params :: "real \<Rightarrow> instance_parameters" where
  "run_params increase =
     \<lparr> num_projects = 2, planning_window = 1, base_budget = 10,
       yearly_budget_increase = increase, initiation_max_proportion = 1 / 4,
       ongoing_max_proportion = 3 / 4, prerequisite_tuples = Some [(2, 1)],
       exclusion_tuples = Some [(2, 1)], synergy_tuples = Some [(2, 1)], discount_rate = 0,
       kwargs = kw0, max_proj_length = None \<rparr>"

text \<open>Two projects whose values are 0, for the degenerate synergy draw.\<close>

definition zero_project :: "nat \<Rightarrow> project" where
  "zero_project i =
     \<lparr> project_id = i, cost = [0], pvalue = [0], duration = 1, prerequisite_list = [],
       successor_list = [], exclusion_list = [], total_cost = 0 \<rparr>"

text \<open>The instance \<open>generate_instance\<close> builds from the run above, by the yearly increase.\<close>

definition run_instance :: "real \<Rightarrow> project_problem_instance" where
  "run_instance increase =
     \<lparr> projects = run_projects, budget = [10, 10 + increase],
       initiation_budget = [10 * (1 / 4), (10 + increase) * (1 / 4)],
       ongoing_budget = [10 * (3 / 4), (10 + increase) * (3 / 4)],
       synergies = [\<lparr> project_ids = [0, 1], svalue = 1 \<rparr>],
       instance_planning_window = 1, instance_identifier = ''Instance 1'',
       instance_num_projects = 2, budget_window = 2, instance_discount_rate = 0,
       parameters = (run_params increase)\<lparr> max_proj_length := Some 1 \<rparr> \<rparr>"
section \<open>The temporal allocation\<close>













section \<open>The constraint passes\<close>

lemma rel_of_append:
  assumes "k < length ls"
  shows "rel_of (ls[k := ls ! k @ [v]]) = insert (k, v) (rel_of ls)"
  using assms by (auto simp: rel_of_def nth_list_update split: if_splits)

lemma fold_rel_union:
  assumes "\<And>x ps. x \<in> set xs \<Longrightarrow> length ps = N \<Longrightarrow>
             length (f x ps) = N \<and> R (f x ps) = R ps \<union> G x"
    and "length ps = N"
  shows "length (fold f xs ps) = N \<and> R (fold f xs ps) = R ps \<union> (\<Union>x \<in> set xs. G x)"
  using assms
proof (induction xs arbitrary: ps)
  case Nil
  then show ?case by simp
next
  case (Cons a xs)
  have a: "length (f a ps) = N" "R (f a ps) = R ps \<union> G a"
    using Cons.prems(1)[of a ps] Cons.prems(2) by simp_all
  have "length (fold f xs (f a ps)) = N \<and> R (fold f xs (f a ps)) = R (f a ps) \<union> (\<Union>x \<in> set xs. G x)"
    by (rule Cons.IH) (use Cons.prems a in auto)
  then show ?case using a by auto
qed

lemma fold_keeps:
  assumes "\<And>x ps. x \<in> set xs \<Longrightarrow> V (f x ps) = V ps"
  shows "V (fold f xs ps) = V ps"
  using assms by (induction xs arbitrary: ps) simp_all

lemma append_exclusion_length [simp]: "length (append_exclusion k v ps) = length ps"
  by (simp add: append_exclusion_def)
lemma append_successor_length [simp]: "length (append_successor k v ps) = length ps"
  by (simp add: append_successor_def)
lemma append_prerequisite_length [simp]: "length (append_prerequisite k v ps) = length ps"
  by (simp add: append_prerequisite_def)

lemma append_exclusion_rel:
  assumes "k < length ps"
  shows "rel_of (map exclusion_list (append_exclusion k v ps))
           = insert (k, v) (rel_of (map exclusion_list ps))"
proof -
  have "map exclusion_list (append_exclusion k v ps)
          = (map exclusion_list ps)[k := map exclusion_list ps ! k @ [v]]"
    using assms by (simp add: append_exclusion_def map_update)
  moreover have "k < length (map exclusion_list ps)" using assms by simp
  ultimately show ?thesis by (simp only: rel_of_append)
qed

lemma append_successor_rel:
  assumes "k < length ps"
  shows "rel_of (map successor_list (append_successor k v ps))
           = insert (k, v) (rel_of (map successor_list ps))"
proof -
  have "map successor_list (append_successor k v ps)
          = (map successor_list ps)[k := map successor_list ps ! k @ [v]]"
    using assms by (simp add: append_successor_def map_update)
  moreover have "k < length (map successor_list ps)" using assms by simp
  ultimately show ?thesis by (simp only: rel_of_append)
qed

lemma append_prerequisite_rel:
  assumes "k < length ps"
  shows "rel_of (map prerequisite_list (append_prerequisite k v ps))
           = insert (k, v) (rel_of (map prerequisite_list ps))"
proof -
  have "map prerequisite_list (append_prerequisite k v ps)
          = (map prerequisite_list ps)[k := map prerequisite_list ps ! k @ [v]]"
    using assms by (simp add: append_prerequisite_def map_update)
  moreover have "k < length (map prerequisite_list ps)" using assms by simp
  ultimately show ?thesis by (simp only: rel_of_append)
qed

lemma map_update_same: "f y = f (xs ! k) \<Longrightarrow> map f (xs[k := y]) = map f xs"
proof (cases "k < length xs")
  case True
  assume "f y = f (xs ! k)"
  then have "map f (xs[k := y]) = (map f xs)[k := map f xs ! k]" using True by (simp add: map_update)
  then show ?thesis by simp
next
  case False
  then have "xs[k := y] = xs" by (simp add: list_update_beyond)
  then show ?thesis by simp
qed

lemma append_exclusion_keeps:
  "map frame (append_exclusion k v ps) = map frame ps"
  "map successor_list (append_exclusion k v ps) = map successor_list ps"
  "map prerequisite_list (append_exclusion k v ps) = map prerequisite_list ps"
  unfolding append_exclusion_def by (rule map_update_same, simp add: frame_def)+

lemma append_successor_keeps:
  "map frame (append_successor k v ps) = map frame ps"
  "map exclusion_list (append_successor k v ps) = map exclusion_list ps"
  "map prerequisite_list (append_successor k v ps) = map prerequisite_list ps"
  unfolding append_successor_def by (rule map_update_same, simp add: frame_def)+

lemma append_prerequisite_keeps:
  "map frame (append_prerequisite k v ps) = map frame ps"
  "map exclusion_list (append_prerequisite k v ps) = map exclusion_list ps"
  "map successor_list (append_prerequisite k v ps) = map successor_list ps"
  unfolding append_prerequisite_def by (rule map_update_same, simp add: frame_def)+


lemma fold_invariant:
  assumes "\<And>x s. x \<in> set xs \<Longrightarrow> I s \<Longrightarrow> I (f x s)" and "I s"
  shows "I (fold f xs s)"
  using assms by (induction xs arbitrary: s) simp_all

lemma exclusion_inner_rel:
  assumes "length ps = N" "\<forall>x \<in> set grp. x < N" "length grp = sz" "i < sz"
  shows "length (exclusion_inner grp sz i ps) = N \<and>
         rel_of (map exclusion_list (exclusion_inner grp sz i ps))
           = rel_of (map exclusion_list ps)
             \<union> (\<Union>j \<in> set [0 ..< sz]. if i = j then {} else {(grp ! i, grp ! j + 1)})"
  unfolding exclusion_inner_def
proof (rule fold_rel_union[where R = "\<lambda>ps. rel_of (map exclusion_list ps)"])
  show "length ps = N" by (rule assms(1))
next
  fix j and qs :: "project list"
  assume j: "j \<in> set [0 ..< sz]" and l: "length qs = N"
  have "grp ! i < length qs" using assms l by simp
  then show "length (if i = j then qs else append_exclusion (grp ! i) (grp ! j + 1) qs) = N \<and>
        rel_of (map exclusion_list (if i = j then qs else append_exclusion (grp ! i) (grp ! j + 1) qs))
          = rel_of (map exclusion_list qs) \<union> (if i = j then {} else {(grp ! i, grp ! j + 1)})"
    using l by (simp add: append_exclusion_rel)
qed

lemma clique_unfold:
  "clique grp = (\<Union>i \<in> set [0 ..< length grp]. \<Union>j \<in> set [0 ..< length grp].
                    if i = j then {} else {(grp ! i, grp ! j + 1)})"
proof (intro set_eqI iffI)
  fix x assume "x \<in> clique grp"
  then obtain i j where "x = (grp ! i, grp ! j + 1)" "i < length grp" "j < length grp" "i \<noteq> j"
    unfolding clique_def by blast
  then show "x \<in> (\<Union>i \<in> set [0 ..< length grp]. \<Union>j \<in> set [0 ..< length grp].
                    if i = j then {} else {(grp ! i, grp ! j + 1)})"
    by (intro UN_I[of i] UN_I[of j]) simp_all
next
  fix x assume "x \<in> (\<Union>i \<in> set [0 ..< length grp]. \<Union>j \<in> set [0 ..< length grp].
                    if i = j then {} else {(grp ! i, grp ! j + 1)})"
  then obtain i j where "i < length grp" "j < length grp"
    "x \<in> (if i = j then {} else {(grp ! i, grp ! j + 1)})" by auto
  then have "i < length grp \<and> j < length grp \<and> i \<noteq> j \<and> x = (grp ! i, grp ! j + 1)"
    by (auto split: if_splits)
  then show "x \<in> clique grp" unfolding clique_def by blast
qed

lemma exclusion_group_rel:
  assumes "length ps = N" "\<forall>x \<in> set grp. x < N" "length grp = sz"
  shows "length (exclusion_group sz grp ps) = N \<and>
         rel_of (map exclusion_list (exclusion_group sz grp ps))
           = rel_of (map exclusion_list ps) \<union> clique grp"
proof -
  have "length (fold (exclusion_inner grp sz) [0 ..< sz] ps) = N \<and>
        rel_of (map exclusion_list (fold (exclusion_inner grp sz) [0 ..< sz] ps))
          = rel_of (map exclusion_list ps)
            \<union> (\<Union>i \<in> set [0 ..< sz]. \<Union>j \<in> set [0 ..< sz].
                    if i = j then {} else {(grp ! i, grp ! j + 1)})"
  proof (rule fold_rel_union[where R = "\<lambda>ps. rel_of (map exclusion_list ps)"])
    show "length ps = N" by (rule assms(1))
  next
    fix i and qs :: "project list"
    assume "i \<in> set [0 ..< sz]" and l: "length qs = N"
    then have "i < sz" by simp
    from exclusion_inner_rel[OF l assms(2,3) this]
    show "length (exclusion_inner grp sz i qs) = N \<and>
          rel_of (map exclusion_list (exclusion_inner grp sz i qs))
            = rel_of (map exclusion_list qs)
              \<union> (\<Union>j \<in> set [0 ..< sz]. if i = j then {} else {(grp ! i, grp ! j + 1)})" .
  qed
  then show ?thesis unfolding exclusion_group_def clique_unfold assms(3) .
qed

lemma sym_irr_clique:
  assumes "distinct grp" "sym_irr R"
  shows "sym_irr (R \<union> clique grp)"
proof -
  have s: "((a, Suc b) \<in> clique grp) = ((b, Suc a) \<in> clique grp)" for a b
    unfolding clique_def by auto
  have i: "(a, Suc a) \<notin> clique grp" for a
    unfolding clique_def using assms(1) by (auto simp: nth_eq_iff_index_eq)
  show ?thesis using assms(2) s i unfolding sym_irr_def by auto
qed

lemma exclusion_inner_keeps:
  "map frame (exclusion_inner grp sz i ps) = map frame ps"
  "map successor_list (exclusion_inner grp sz i ps) = map successor_list ps"
  "map prerequisite_list (exclusion_inner grp sz i ps) = map prerequisite_list ps"
  unfolding exclusion_inner_def
  by (rule fold_keeps, simp add: append_exclusion_keeps)+

lemma exclusion_group_keeps:
  "map frame (exclusion_group sz grp ps) = map frame ps"
  "map successor_list (exclusion_group sz grp ps) = map successor_list ps"
  "map prerequisite_list (exclusion_group sz grp ps) = map prerequisite_list ps"
  unfolding exclusion_group_def
  by (rule fold_keeps, simp add: exclusion_inner_keeps)+

lemma np_random_choice2_valid:
  assumes "np_random_choice2 indices n sz tp = Inr (groups, tp')"
  shows "length groups = nat n" "\<forall>g \<in> set groups. length g = sz"
        "distinct (concat groups)" "set (concat groups) \<subseteq> set indices"
  using assms unfolding np_random_choice2_def
  by (auto split: if_splits list.splits draw.splits)

lemma choice2_group:
  assumes "np_random_choice2 indices n sz tp = Inr (groups, tp')" "g \<in> set groups"
  shows "length g = sz" "distinct g" "set g \<subseteq> set indices"
proof -
  note v = np_random_choice2_valid[OF assms(1)]
  show "length g = sz" using v(2) assms(2) by blast
  show "distinct g" using v(3) assms(2) by (auto simp: distinct_concat_iff)
  show "set g \<subseteq> set indices" using v(4) assms(2) by auto
qed

lemma setdiff1d_subset: "set (setdiff1d indices groups) \<subseteq> set indices"
  by (auto simp: setdiff1d_def)

lemma exclusion_groups_inv:
  assumes "\<forall>g \<in> set groups. length g = sz \<and> distinct g \<and> (\<forall>x \<in> set g. x < N)"
    and "length ps = N" "sym_irr (rel_of (map exclusion_list ps))"
  shows "length (fold (exclusion_group sz) groups ps) = N \<and>
         sym_irr (rel_of (map exclusion_list (fold (exclusion_group sz) groups ps)))"
proof (rule fold_invariant[where I = "\<lambda>qs. length qs = N \<and> sym_irr (rel_of (map exclusion_list qs))"])
  show "length ps = N \<and> sym_irr (rel_of (map exclusion_list ps))" using assms by simp
next
  fix g and qs :: "project list"
  assume g: "g \<in> set groups" and i: "length qs = N \<and> sym_irr (rel_of (map exclusion_list qs))"
  have v: "length g = sz" "distinct g" "\<forall>x \<in> set g. x < N" using assms(1) g by auto
  from exclusion_group_rel[OF conjunct1[OF i] v(3) v(1)] sym_irr_clique[OF v(2) conjunct2[OF i]]
  show "length (exclusion_group sz g qs) = N \<and> sym_irr (rel_of (map exclusion_list (exclusion_group sz g qs)))"
    by simp
qed

lemma exclusion_groups_keeps:
  "map frame (fold (exclusion_group sz) groups ps) = map frame ps"
  "map successor_list (fold (exclusion_group sz) groups ps) = map successor_list ps"
  "map prerequisite_list (fold (exclusion_group sz) groups ps) = map prerequisite_list ps"
  by (rule fold_keeps, simp add: exclusion_group_keeps)+

lemma exclusions_loop_inv:
  assumes "exclusions_loop N gs indices ps tp = Inr (ps', tp')"
    and "length ps = N" "\<forall>x \<in> set indices. x < N" "sym_irr (rel_of (map exclusion_list ps))"
  shows "length ps' = N \<and> sym_irr (rel_of (map exclusion_list ps'))
         \<and> map frame ps' = map frame ps
         \<and> map successor_list ps' = map successor_list ps
         \<and> map prerequisite_list ps' = map prerequisite_list ps"
  using assms
proof (induction gs arbitrary: indices ps tp)
  case Nil
  then show ?case by simp
next
  case (Cons d gs)
  obtain sz pr where d: "d = (sz, pr)" by (cases d)
  from Cons.prems(1) d have "\<exists>groups tp1.
      np_random_choice2 indices (py_int (pr * real N / real sz)) sz tp = Inr (groups, tp1)
      \<and> exclusions_loop N gs (setdiff1d indices groups) (fold (exclusion_group sz) groups ps) tp1
              = Inr (ps', tp')"
    by (auto split: if_splits sum.splits)
  then obtain groups tp1 where
    c: "np_random_choice2 indices (py_int (pr * real N / real sz)) sz tp = Inr (groups, tp1)"
    and r: "exclusions_loop N gs (setdiff1d indices groups) (fold (exclusion_group sz) groups ps) tp1
              = Inr (ps', tp')"
    by blast
  let ?qs = "fold (exclusion_group sz) groups ps"
  have v: "\<forall>g \<in> set groups. length g = sz \<and> distinct g \<and> (\<forall>x \<in> set g. x < N)"
    using choice2_group[OF c] Cons.prems(3) by blast
  note q = exclusion_groups_inv[OF v Cons.prems(2,4)]
  have i: "\<forall>x \<in> set (setdiff1d indices groups). x < N"
    using setdiff1d_subset Cons.prems(3) by blast
  from Cons.IH[OF r conjunct1[OF q] i conjunct2[OF q]]
  show ?case by (simp add: exclusion_groups_keeps)
qed

lemma generate_exclusions_post_inv:
  assumes "generate_exclusions_post ps gs tp = Inr (ps', tp')"
    and "sym_irr (rel_of (map exclusion_list ps))"
  shows "length ps' = length ps \<and> sym_irr (rel_of (map exclusion_list ps'))
         \<and> map frame ps' = map frame ps
         \<and> map successor_list ps' = map successor_list ps
         \<and> map prerequisite_list ps' = map prerequisite_list ps"
  using exclusions_loop_inv[OF assms(1)[unfolded generate_exclusions_post_def] refl _ assms(2)]
  by simp

lemma sort_not_Nil:
  fixes xs :: "nat list"
  assumes "xs \<noteq> []"
  shows "sort xs \<noteq> []"
proof
  assume "sort xs = []"
  then have "length (sort xs) = 0" by simp
  then show False using assms by simp
qed

lemma sort_nth_0:
  fixes xs :: "nat list"
  assumes "xs \<noteq> []"
  shows "sort xs ! 0 = Min (set xs)"
proof -
  obtain y ys where s: "sort xs = y # ys"
    using sort_not_Nil[OF assms(1)] by (cases "sort xs") auto
  have "sorted (y # ys)" using s sorted_sort[of xs] by simp
  then have le: "\<forall>z \<in> set ys. y \<le> z" by simp
  have st: "set xs = insert y (set ys)" by (metis s list.simps(15) set_sort)
  have "Min (set xs) = y" unfolding st by (rule Min_eqI) (use le in auto)
  then show ?thesis using s by simp
qed

lemma sort_nth_rest:
  fixes xs :: "nat list"
  assumes "xs \<noteq> []" "distinct xs"
  shows "{sort xs ! i | i. 1 \<le> i \<and> i < length xs} = set xs - {Min (set xs)}"
proof -
  obtain y ys where s: "sort xs = y # ys"
    using sort_not_Nil[OF assms(1)] by (cases "sort xs") auto
  have m: "Min (set xs) = y" using sort_nth_0[OF assms(1)] s by simp
  have d: "distinct (y # ys)" using assms(2) s by (metis distinct_sort)
  have st: "set xs = insert y (set ys)" by (metis s list.simps(15) set_sort)
  have l: "length xs = Suc (length ys)" by (metis s length_sort length_Cons)
  have "{(y # ys) ! i | i. 1 \<le> i \<and> i < Suc (length ys)} = set ys"
  proof (intro set_eqI iffI)
    fix x assume "x \<in> {(y # ys) ! i | i. 1 \<le> i \<and> i < Suc (length ys)}"
    then obtain i where "x = (y # ys) ! i" "1 \<le> i" "i < Suc (length ys)" by blast
    then show "x \<in> set ys" by (cases i) auto
  next
    fix x assume "x \<in> set ys"
    then obtain k where "k < length ys" "ys ! k = x" by (auto simp: in_set_conv_nth)
    then have "x = (y # ys) ! Suc k \<and> 1 \<le> Suc k \<and> Suc k < Suc (length ys)" by simp
    then show "x \<in> {(y # ys) ! i | i. 1 \<le> i \<and> i < Suc (length ys)}" by blast
  qed
  then have "{sort xs ! i | i. 1 \<le> i \<and> i < length xs} = set ys" unfolding s l .
  moreover have "set xs - {Min (set xs)} = set ys" unfolding m using st d by auto
  ultimately show ?thesis by simp
qed

lemma prerequisite_step:
  assumes "length qs = N" "a < N" "b < N"
  shows "length (append_prerequisite b v (append_successor a w qs)) = N"
    and "rel_of (map successor_list (append_prerequisite b v (append_successor a w qs)))
           = rel_of (map successor_list qs) \<union> {(a, w)}"
    and "rel_of (map prerequisite_list (append_prerequisite b v (append_successor a w qs)))
           = rel_of (map prerequisite_list qs) \<union> {(b, v)}"
  using assms
  by (simp_all add: append_prerequisite_keeps append_successor_keeps
        append_prerequisite_rel append_successor_rel)

lemma prerequisite_group_rel:
  assumes "length ps = N" "\<forall>x \<in> set grp. x < N" "length grp = sz" "distinct grp" "0 < sz"
  shows "length (prerequisite_group sz grp ps) = N"
    and "rel_of (map successor_list (prerequisite_group sz grp ps))
           = rel_of (map successor_list ps) \<union> successor_links grp"
    and "rel_of (map prerequisite_list (prerequisite_group sz grp ps))
           = rel_of (map prerequisite_list ps) \<union> prerequisite_links grp"
proof -
  let ?sg = "sort grp"
  let ?f = "\<lambda>i ps'. append_prerequisite (?sg ! i) (?sg ! 0 + 1)
                        (append_successor (?sg ! 0) (?sg ! i + 1) ps')"
  have pg: "prerequisite_group sz grp ps = fold ?f [1 ..< sz] ps"
    by (simp add: prerequisite_group_def Let_def)
  have ne: "grp \<noteq> []" using assms(3,5) by auto
  have in_range: "?sg ! i < N" if "i < sz" for i
  proof -
    have "?sg ! i \<in> set ?sg" using that assms(3) by (intro nth_mem) simp
    then show ?thesis using assms(2) by simp
  qed
  have S: "length (fold ?f [1 ..< sz] ps) = N \<and>
           rel_of (map successor_list (fold ?f [1 ..< sz] ps))
             = rel_of (map successor_list ps) \<union> (\<Union>i \<in> set [1 ..< sz]. {(?sg ! 0, ?sg ! i + 1)})"
  proof (rule fold_rel_union[where R = "\<lambda>ps. rel_of (map successor_list ps)"])
    show "length ps = N" by (rule assms(1))
  next
    fix i and qs :: "project list"
    assume "i \<in> set [1 ..< sz]" and l: "length qs = N"
    then have "i < sz" by simp
    from prerequisite_step(1,2)[OF l in_range[OF assms(5)] in_range[OF this]]
    show "length (?f i qs) = N \<and>
          rel_of (map successor_list (?f i qs)) = rel_of (map successor_list qs) \<union> {(?sg ! 0, ?sg ! i + 1)}"
      by simp
  qed
  have P: "length (fold ?f [1 ..< sz] ps) = N \<and>
           rel_of (map prerequisite_list (fold ?f [1 ..< sz] ps))
             = rel_of (map prerequisite_list ps) \<union> (\<Union>i \<in> set [1 ..< sz]. {(?sg ! i, ?sg ! 0 + 1)})"
  proof (rule fold_rel_union[where R = "\<lambda>ps. rel_of (map prerequisite_list ps)"])
    show "length ps = N" by (rule assms(1))
  next
    fix i and qs :: "project list"
    assume "i \<in> set [1 ..< sz]" and l: "length qs = N"
    then have "i < sz" by simp
    from prerequisite_step(1,3)[OF l in_range[OF assms(5)] in_range[OF this]]
    show "length (?f i qs) = N \<and>
          rel_of (map prerequisite_list (?f i qs)) = rel_of (map prerequisite_list qs) \<union> {(?sg ! i, ?sg ! 0 + 1)}"
      by simp
  qed
  have rest: "{?sg ! i | i. 1 \<le> i \<and> i < sz} = set grp - {Min (set grp)}"
    using sort_nth_rest[OF ne assms(4)] assms(3) by simp
  have m: "?sg ! 0 = Min (set grp)" by (rule sort_nth_0[OF ne])
  have sl: "(\<Union>i \<in> set [1 ..< sz]. {(?sg ! 0, ?sg ! i + 1)}) = successor_links grp"
  proof -
    have "(\<Union>i \<in> set [1 ..< sz]. {(?sg ! 0, ?sg ! i + 1)})
            = (\<lambda>s. (?sg ! 0, s + 1)) ` {?sg ! i | i. 1 \<le> i \<and> i < sz}" by fastforce
    also have "\<dots> = successor_links grp" unfolding rest m successor_links_def by auto
    finally show ?thesis .
  qed
  have pl: "(\<Union>i \<in> set [1 ..< sz]. {(?sg ! i, ?sg ! 0 + 1)}) = prerequisite_links grp"
  proof -
    have "(\<Union>i \<in> set [1 ..< sz]. {(?sg ! i, ?sg ! 0 + 1)})
            = (\<lambda>s. (s, ?sg ! 0 + 1)) ` {?sg ! i | i. 1 \<le> i \<and> i < sz}" by fastforce
    also have "\<dots> = prerequisite_links grp" unfolding rest m prerequisite_links_def by auto
    finally show ?thesis .
  qed
  show "length (prerequisite_group sz grp ps) = N" using S pg by simp
  show "rel_of (map successor_list (prerequisite_group sz grp ps))
           = rel_of (map successor_list ps) \<union> successor_links grp"
    using S pg sl by simp
  show "rel_of (map prerequisite_list (prerequisite_group sz grp ps))
           = rel_of (map prerequisite_list ps) \<union> prerequisite_links grp"
    using P pg pl by simp
qed

lemma mutual_inverse_links:
  assumes "mutual_inverse S P"
  shows "mutual_inverse (S \<union> successor_links grp) (P \<union> prerequisite_links grp)"
proof -
  have a: "((a, Suc b) \<in> successor_links grp) = ((b, Suc a) \<in> prerequisite_links grp)" for a b
    unfolding successor_links_def prerequisite_links_def by auto
  have b: "(a, Suc a) \<notin> successor_links grp" "(a, Suc a) \<notin> prerequisite_links grp" for a
    unfolding successor_links_def prerequisite_links_def by auto
  show ?thesis using assms a b unfolding mutual_inverse_def by auto
qed

lemma prerequisite_group_keeps:
  "map frame (prerequisite_group sz grp ps) = map frame ps"
  "map exclusion_list (prerequisite_group sz grp ps) = map exclusion_list ps"
  unfolding prerequisite_group_def Let_def
  by (rule fold_keeps, simp add: append_prerequisite_keeps append_successor_keeps)+

lemma prerequisite_groups_inv:
  assumes "\<forall>g \<in> set groups. length g = sz \<and> distinct g \<and> (\<forall>x \<in> set g. x < N)" "0 < sz"
    and "length ps = N"
    and "mutual_inverse (rel_of (map successor_list ps)) (rel_of (map prerequisite_list ps))"
  shows "length (fold (prerequisite_group sz) groups ps) = N \<and>
         mutual_inverse (rel_of (map successor_list (fold (prerequisite_group sz) groups ps)))
                        (rel_of (map prerequisite_list (fold (prerequisite_group sz) groups ps)))"
proof (rule fold_invariant[where I = "\<lambda>qs. length qs = N \<and>
          mutual_inverse (rel_of (map successor_list qs)) (rel_of (map prerequisite_list qs))"])
  show "length ps = N \<and>
        mutual_inverse (rel_of (map successor_list ps)) (rel_of (map prerequisite_list ps))"
    using assms by simp
next
  fix g and qs :: "project list"
  assume g: "g \<in> set groups"
    and i: "length qs = N \<and>
            mutual_inverse (rel_of (map successor_list qs)) (rel_of (map prerequisite_list qs))"
  have v: "length g = sz" "distinct g" "\<forall>x \<in> set g. x < N" using assms(1) g by auto
  note r = prerequisite_group_rel[OF conjunct1[OF i] v(3) v(1) v(2) assms(2)]
  show "length (prerequisite_group sz g qs) = N \<and>
        mutual_inverse (rel_of (map successor_list (prerequisite_group sz g qs)))
                       (rel_of (map prerequisite_list (prerequisite_group sz g qs)))"
    unfolding r using r(1) mutual_inverse_links[OF conjunct2[OF i]] by simp
qed

lemma prerequisite_groups_keeps:
  "map frame (fold (prerequisite_group sz) groups ps) = map frame ps"
  "map exclusion_list (fold (prerequisite_group sz) groups ps) = map exclusion_list ps"
  by (rule fold_keeps, simp add: prerequisite_group_keeps)+

lemma prerequisites_loop_inv:
  assumes "prerequisites_loop N gs indices ps tp = Inr (ps', tp')"
    and "length ps = N" "\<forall>x \<in> set indices. x < N"
    and "mutual_inverse (rel_of (map successor_list ps)) (rel_of (map prerequisite_list ps))"
  shows "length ps' = N
         \<and> mutual_inverse (rel_of (map successor_list ps')) (rel_of (map prerequisite_list ps'))
         \<and> map frame ps' = map frame ps
         \<and> map exclusion_list ps' = map exclusion_list ps"
  using assms
proof (induction gs arbitrary: indices ps tp)
  case Nil
  then show ?case by simp
next
  case (Cons d gs)
  obtain sz pr where d: "d = (sz, pr)" by (cases d)
  from Cons.prems(1) d have z: "0 < sz" by (auto split: if_splits)
  from Cons.prems(1) d have "\<exists>groups tp1.
      np_random_choice2 indices (py_int (pr * real N / real sz)) sz tp = Inr (groups, tp1)
      \<and> prerequisites_loop N gs (setdiff1d indices groups) (fold (prerequisite_group sz) groups ps) tp1
              = Inr (ps', tp')"
    by (auto split: if_splits sum.splits)
  then obtain groups tp1 where
    c: "np_random_choice2 indices (py_int (pr * real N / real sz)) sz tp = Inr (groups, tp1)"
    and r: "prerequisites_loop N gs (setdiff1d indices groups) (fold (prerequisite_group sz) groups ps) tp1
              = Inr (ps', tp')"
    by blast
  have v: "\<forall>g \<in> set groups. length g = sz \<and> distinct g \<and> (\<forall>x \<in> set g. x < N)"
    using choice2_group[OF c] Cons.prems(3) by blast
  note q = prerequisite_groups_inv[OF v z Cons.prems(2,4)]
  have i: "\<forall>x \<in> set (setdiff1d indices groups). x < N"
    using setdiff1d_subset Cons.prems(3) by blast
  from Cons.IH[OF r conjunct1[OF q] i conjunct2[OF q]]
  show ?case by (simp add: prerequisite_groups_keeps)
qed

lemma generate_prerequisites_post_inv:
  assumes "generate_prerequisites_post ps gs tp = Inr (ps', tp')"
    and "mutual_inverse (rel_of (map successor_list ps)) (rel_of (map prerequisite_list ps))"
  shows "length ps' = length ps
         \<and> mutual_inverse (rel_of (map successor_list ps')) (rel_of (map prerequisite_list ps'))
         \<and> map frame ps' = map frame ps
         \<and> map exclusion_list ps' = map exclusion_list ps"
  using prerequisites_loop_inv[OF assms(1)[unfolded generate_prerequisites_post_def] refl _ assms(2)]
  by simp

subsection \<open>The generated projects\<close>

lemma make_project_fields:
  assumes "make_project kw i dur tc tp = Inr (p, tp')"
  shows "project_id p = i + 1" "prerequisite_list p = []" "successor_list p = []"
        "exclusion_list p = []" "duration p = dur" "total_cost p = tc"
  using assms unfolding make_project_def
  by (auto split: sum.splits)

lemma make_projects_fields:
  assumes "make_projects kw i rows tp = Inr (ps, tp')"
  shows "length ps = length rows \<and>
         (\<forall>k < length ps. project_id (ps ! k) = i + k + 1 \<and> prerequisite_list (ps ! k) = []
              \<and> successor_list (ps ! k) = [] \<and> exclusion_list (ps ! k) = [])"
  using assms
proof (induction rows arbitrary: i ps tp)
  case Nil
  then show ?case by simp
next
  case (Cons r rows)
  obtain dur tc where r: "r = (dur, tc)" by (cases r)
  from Cons.prems r have "\<exists>p tp1 qs. make_project kw i dur tc tp = Inr (p, tp1)
      \<and> make_projects kw (i + 1) rows tp1 = Inr (qs, tp') \<and> ps = p # qs"
    by (auto split: sum.splits)
  then obtain p tp1 qs where p: "make_project kw i dur tc tp = Inr (p, tp1)"
    and q: "make_projects kw (i + 1) rows tp1 = Inr (qs, tp')" and ps: "ps = p # qs" by blast
  note f = make_project_fields[OF p]
  note ih = Cons.IH[OF q]
  show ?case unfolding ps using f ih by (auto simp: nth_Cons split: nat.splits)
qed
section \<open>A completed run\<close>

lemma rel_of_empty:
  assumes "\<forall>k < length ls. ls ! k = []"
  shows "rel_of ls = {}"
  using assms by (auto simp: rel_of_def)

lemma make_projects_start:
  assumes "make_projects kw 0 rows tp = Inr (ps, tp')"
  shows "length ps = length rows"
    and "\<forall>k < length ps. project_id (ps ! k) = k + 1"
    and "sym_irr (rel_of (map exclusion_list ps))"
    and "mutual_inverse (rel_of (map successor_list ps)) (rel_of (map prerequisite_list ps))"
proof -
  note f = make_projects_fields[OF assms]
  show "length ps = length rows" using f by simp
  show "\<forall>k < length ps. project_id (ps ! k) = k + 1" using f by simp
  have "rel_of (map exclusion_list ps) = {}" by (rule rel_of_empty) (use f in simp)
  then show "sym_irr (rel_of (map exclusion_list ps))" by (simp add: sym_irr_def)
  have "rel_of (map successor_list ps) = {}" by (rule rel_of_empty) (use f in simp)
  moreover have "rel_of (map prerequisite_list ps) = {}" by (rule rel_of_empty) (use f in simp)
  ultimately show "mutual_inverse (rel_of (map successor_list ps)) (rel_of (map prerequisite_list ps))"
    by (simp add: mutual_inverse_def)
qed

lemma mvlnorm_length:
  assumes "mvlnorm_generate_costdur n tp = Inr (rows, tp')"
  shows "length rows = n"
  using assms by (cases tp; cases "hd tp") (auto split: if_splits)

lemma frame_ids:
  assumes "map frame ps = map frame qs" "\<forall>k < length qs. project_id (qs ! k) = k + 1"
  shows "\<forall>k < length ps. project_id (ps ! k) = k + 1"
proof (intro allI impI)
  fix k assume k: "k < length ps"
  have l: "length ps = length qs" using assms(1) by (metis length_map)
  have "frame (ps ! k) = frame (qs ! k)" using assms(1) k l by (metis nth_map)
  then have "project_id (ps ! k) = project_id (qs ! k)" by (simp add: frame_def)
  then show "project_id (ps ! k) = k + 1" using assms(2) k l by simp
qed

lemma create_random_projects_result:
  assumes "create_random_projects sd N pt et st seed kw g = Inr (ps, syns, g')"
  shows "\<exists>rows tpa ps0 tpb. make_projects kw 0 rows tpa = Inr (ps0, tpb) \<and> length ps0 = N
           \<and> map frame ps = map frame ps0
           \<and> sym_irr (rel_of (map exclusion_list ps))
           \<and> mutual_inverse (rel_of (map successor_list ps)) (rel_of (map prerequisite_list ps))"
proof -
  from assms obtain rows tp1 where
    m: "mvlnorm_generate_costdur N (sd seed) = Inr (rows, tp1)"
    unfolding create_random_projects_def Let_def by (auto split: sum.splits)
  from assms m obtain ps0 tp2 where
    p: "make_projects kw 0 rows tp1 = Inr (ps0, tp2)"
    unfolding create_random_projects_def Let_def by (auto split: sum.splits)
  from assms m p obtain ps1 tp3 where
    e: "(case et of None \<Rightarrow> Inr (ps0, tp2) | Some gs \<Rightarrow> generate_exclusions_post ps0 gs tp2)
          = Inr (ps1, tp3)"
    unfolding create_random_projects_def Let_def by (auto split: sum.splits)
  from assms m p e obtain tp4 where
    q: "(case pt of None \<Rightarrow> Inr (ps1, tp3) | Some gs \<Rightarrow> generate_prerequisites_post ps1 gs tp3)
          = Inr (ps, tp4)"
    unfolding create_random_projects_def Let_def by (auto split: sum.splits)
  note s = make_projects_start[OF p]
  have e1: "length ps1 = length ps0 \<and> sym_irr (rel_of (map exclusion_list ps1))
         \<and> map frame ps1 = map frame ps0
         \<and> map successor_list ps1 = map successor_list ps0
         \<and> map prerequisite_list ps1 = map prerequisite_list ps0"
  proof (cases et)
    case None
    then show ?thesis using e s by simp
  next
    case (Some gs)
    then show ?thesis using e generate_exclusions_post_inv[OF _ s(3)] by simp
  qed
  then have mi: "mutual_inverse (rel_of (map successor_list ps1)) (rel_of (map prerequisite_list ps1))"
    using s(4) by simp
  have e2: "length ps = length ps1
         \<and> mutual_inverse (rel_of (map successor_list ps)) (rel_of (map prerequisite_list ps))
         \<and> map frame ps = map frame ps1
         \<and> map exclusion_list ps = map exclusion_list ps1"
  proof (cases pt)
    case None
    then show ?thesis using q mi by simp
  next
    case (Some gs)
    then show ?thesis using q generate_prerequisites_post_inv[OF _ mi] by simp
  qed
  have "length ps0 = N" using s(1) mvlnorm_length[OF m] by simp
  then show ?thesis using p e1 e2 by auto
qed

lemma rel_of_nth:
  assumes "i < length ps"
  shows "((i, v) \<in> rel_of (map f ps)) = (v \<in> set (f (ps ! i)))"
  using assms by (simp add: rel_of_def)

lemma create_random_projects_relations:
  assumes "create_random_projects sd N pt et st seed kw g = Inr (ps, syns, g')"
  shows "length ps = N"
    and "\<forall>k < length ps. project_id (ps ! k) = k + 1"
    and "sym_irr (rel_of (map exclusion_list ps))"
    and "mutual_inverse (rel_of (map successor_list ps)) (rel_of (map prerequisite_list ps))"
proof -
  from create_random_projects_result[OF assms] obtain rows tpa ps0 tpb where
    r: "make_projects kw 0 rows tpa = Inr (ps0, tpb)" "length ps0 = N"
       "map frame ps = map frame ps0"
       "sym_irr (rel_of (map exclusion_list ps))"
       "mutual_inverse (rel_of (map successor_list ps)) (rel_of (map prerequisite_list ps))"
    by blast
  show "length ps = N" using r(2,3) by (metis length_map)
  show "\<forall>k < length ps. project_id (ps ! k) = k + 1"
    by (rule frame_ids[OF r(3) make_projects_start(2)[OF r(1)]])
  show "sym_irr (rel_of (map exclusion_list ps))" by (rule r(4))
  show "mutual_inverse (rel_of (map successor_list ps)) (rel_of (map prerequisite_list ps))"
    by (rule r(5))
qed

lemma rint_of_int [simp]: "rint (real_of_int n) = n"
  by (simp add: rint_def)








text \<open>
  Claim C4.  After a completed run of \<open>create_random_projects\<close> the exclusion relation is
  symmetric (the id of q is in the exclusion list of p exactly when the id of p is in the
  exclusion list of q), and no project has its own id in its prerequisite, successor or
  exclusion list.
\<close>

theorem exclusion_symmetric_no_self:
  assumes "create_random_projects sd N pt et st seed kw g = Inr (ps, syns, g')"
  shows "(\<forall>p \<in> set ps. \<forall>q \<in> set ps.
            (project_id q \<in> set (exclusion_list p)) = (project_id p \<in> set (exclusion_list q)))
       \<and> (\<forall>p \<in> set ps. project_id p \<notin> set (prerequisite_list p)
             \<and> project_id p \<notin> set (successor_list p)
             \<and> project_id p \<notin> set (exclusion_list p))"
proof -
  note r = create_random_projects_relations[OF assms]
  have sym: "(project_id q \<in> set (exclusion_list p)) = (project_id p \<in> set (exclusion_list q))"
    if "p \<in> set ps" "q \<in> set ps" for p q
  proof -
    from that obtain i j where i: "i < length ps" "ps ! i = p" and j: "j < length ps" "ps ! j = q"
      by (auto simp: in_set_conv_nth)
    have "((i, Suc j) \<in> rel_of (map exclusion_list ps)) = ((j, Suc i) \<in> rel_of (map exclusion_list ps))"
      using r(3) by (simp add: sym_irr_def)
    moreover have "project_id p = Suc i" "project_id q = Suc j" using i j r(2) by auto
    ultimately show ?thesis using i j by (simp add: rel_of_nth)
  qed
  have self: "project_id p \<notin> set (prerequisite_list p) \<and> project_id p \<notin> set (successor_list p)
             \<and> project_id p \<notin> set (exclusion_list p)" if "p \<in> set ps" for p
  proof -
    from that obtain i where i: "i < length ps" "ps ! i = p" by (auto simp: in_set_conv_nth)
    have "(i, Suc i) \<notin> rel_of (map exclusion_list ps)" using r(3) by (simp add: sym_irr_def)
    moreover have "(i, Suc i) \<notin> rel_of (map successor_list ps)"
      "(i, Suc i) \<notin> rel_of (map prerequisite_list ps)"
      using r(4) by (simp_all add: mutual_inverse_def)
    moreover have "project_id p = Suc i" using i r(2) by auto
    ultimately show ?thesis using i by (simp add: rel_of_nth)
  qed
  show ?thesis using sym self by blast
qed

subsection \<open>The synergy pass\<close>

lemma synergy_group_valid:
  assumes "synergy_group ps indices sz tp = Inr (grp, tp')"
  shows "length grp = sz \<and> distinct grp \<and> set grp \<subseteq> set indices \<and> \<not> group_conflict ps grp sz"
  using assms
  by (induction ps indices sz tp rule: synergy_group.induct) (auto split: if_splits)

lemma np_random_randint_range:
  assumes "np_random_randint low high tp = Inr (v, tp')"
  shows "low \<le> v \<and> v < py_int high"
  using assms unfolding np_random_randint_def
  by (auto split: if_splits list.splits draw.splits)

lemma py_int_le: "0 \<le> x \<Longrightarrow> real_of_int (py_int x) \<le> x"
  by (simp add: py_int_def)

lemma make_synergy_value:
  assumes "make_synergy ps indices sz tp = Inr (s, tp')"
  shows "1 \<le> svalue s \<and> real_of_int (svalue s) < total_group_value ps (project_ids s)"
proof -
  from assms obtain grp tp1 where
    g: "synergy_group ps indices sz tp = Inr (grp, tp1)"
    unfolding make_synergy_def by (auto split: sum.splits)
  from assms g obtain v where
    r: "np_random_randint 1 (total_group_value ps grp) tp1 = Inr (v, tp')"
    and s: "s = \<lparr> project_ids = grp, svalue = v \<rparr>"
    unfolding make_synergy_def by (auto split: sum.splits)
  note b = np_random_randint_range[OF r]
  let ?t = "total_group_value ps grp"
  have "1 < py_int ?t" using b by simp
  then have "0 \<le> ?t" unfolding py_int_def by (auto split: if_splits)
  then have "real_of_int (py_int ?t) \<le> ?t" by (rule py_int_le)
  moreover have "real_of_int v < real_of_int (py_int ?t)" using b by simp
  ultimately show ?thesis using b s by simp
qed

lemma synergies_of_size_values:
  assumes "synergies_of_size ps indices sz n acc tp = Inr (syns, tp')"
    and "\<forall>s \<in> set acc. 1 \<le> svalue s \<and> real_of_int (svalue s) < total_group_value ps (project_ids s)"
  shows "\<forall>s \<in> set syns. 1 \<le> svalue s \<and> real_of_int (svalue s) < total_group_value ps (project_ids s)"
  using assms
proof (induction n arbitrary: acc tp)
  case 0
  then show ?case by simp
next
  case (Suc n)
  from Suc.prems(1) have "\<exists>s tp1. make_synergy ps indices sz tp = Inr (s, tp1)
      \<and> synergies_of_size ps indices sz n (acc @ [s]) tp1 = Inr (syns, tp')"
    by (auto split: sum.splits)
  then obtain s tp1 where m: "make_synergy ps indices sz tp = Inr (s, tp1)"
    and r: "synergies_of_size ps indices sz n (acc @ [s]) tp1 = Inr (syns, tp')" by blast
  show ?case by (rule Suc.IH[OF r]) (use make_synergy_value[OF m] Suc.prems(2) in auto)
qed

lemma synergies_loop_values:
  assumes "synergies_loop ps gs indices acc tp = Inr (syns, tp')"
    and "\<forall>s \<in> set acc. 1 \<le> svalue s \<and> real_of_int (svalue s) < total_group_value ps (project_ids s)"
  shows "\<forall>s \<in> set syns. 1 \<le> svalue s \<and> real_of_int (svalue s) < total_group_value ps (project_ids s)"
  using assms
proof (induction gs arbitrary: acc tp)
  case Nil
  then show ?case by simp
next
  case (Cons d gs)
  obtain sz pr where d: "d = (sz, pr)" by (cases d)
  from Cons.prems(1) d have "\<exists>acc' tp1.
      synergies_of_size ps indices sz (nat (py_int (pr * real (length ps) / real sz))) acc tp
        = Inr (acc', tp1)
      \<and> synergies_loop ps gs indices acc' tp1 = Inr (syns, tp')"
    by (auto split: if_splits sum.splits)
  then obtain acc' tp1 where
    a: "synergies_of_size ps indices sz (nat (py_int (pr * real (length ps) / real sz))) acc tp
        = Inr (acc', tp1)"
    and r: "synergies_loop ps gs indices acc' tp1 = Inr (syns, tp')" by blast
  show ?case by (rule Cons.IH[OF r synergies_of_size_values[OF a Cons.prems(2)]])
qed

lemma synergy_pass_value_range:
  assumes "generate_synergies_post ps group_sizes tp = Inr (syns, tp')"
  shows "\<forall>s \<in> set syns. 1 \<le> svalue s \<and> real_of_int (svalue s) < total_group_value ps (project_ids s)"
  by (rule synergies_loop_values[OF assms[unfolded generate_synergies_post_def]]) simp

text \<open>
  Claim C7.  When the total value of an accepted synergy group is at most 1, the draw of the
  synergy value raises ValueError: no synergy is produced.
\<close>

theorem synergy_value_degenerate_raises:
  assumes "synergy_group ps indices sz tp = Inr (grp, tp1)"
    and "total_group_value ps grp \<le> 1"
  shows "make_synergy ps indices sz tp = Inl ValueError"
proof -
  have "py_int (total_group_value ps grp) \<le> 1"
    using assms(2) unfolding py_int_def by (auto split: if_splits)
  then show ?thesis using assms(1) by (simp add: make_synergy_def np_random_randint_def)
qed
section \<open>The instance and the run as a whole\<close>

lemma max_length_fold:
  "fold (\<lambda>p m. if duration p > m then duration p else m) ps a = Max (insert a (duration ` set ps))"
proof (induction ps arbitrary: a)
  case Nil
  show ?case by simp
next
  case (Cons p ps)
  let ?S = "duration ` set ps"
  have f: "finite (insert (duration p) ?S)" "insert (duration p) ?S \<noteq> {}" by simp_all
  have "Max (insert a (insert (duration p) ?S)) = max a (Max (insert (duration p) ?S))"
    by (rule Max_insert[OF f])
  also have "\<dots> = Max (insert (max a (duration p)) ?S)"
  proof (cases "?S = {}")
    case True
    then show ?thesis by simp
  next
    case False
    then show ?thesis by (simp add: max.assoc)
  qed
  finally have e: "Max (insert (max a (duration p)) ?S) = Max (insert a (insert (duration p) ?S))"
    by simp
  have "(if duration p > a then duration p else a) = max a (duration p)" by simp
  then have "fold (\<lambda>p m. if duration p > m then duration p else m) (p # ps) a
               = fold (\<lambda>p m. if duration p > m then duration p else m) ps (max a (duration p))"
    by simp
  also have "\<dots> = Max (insert (max a (duration p)) ?S)" by (rule Cons.IH)
  finally show ?case using e by simp
qed

lemma max_length_of_Max: "max_length_of ps = Max (insert 0 (duration ` set ps))"
  unfolding max_length_of_def by (rule max_length_fold)

lemma generate_instance_result:
  assumes "generate_instance sd param seed ident g = Inr (inst, param', g')"
  shows "\<exists>ps syns. create_random_projects_from_param sd param seed g = Inr (ps, syns, g')
           \<and> 0 \<le> planning_window param + max_length_of ps
           \<and> param' = param\<lparr> max_proj_length := Some (max_length_of ps) \<rparr>
           \<and> projects inst = ps \<and> synergies inst = syns \<and> parameters inst = param'
           \<and> budget inst = map (\<lambda>y. base_budget param + real y * yearly_budget_increase param)
                              [0 ..< nat (planning_window param + max_length_of ps)]
           \<and> initiation_budget inst = map (\<lambda>b. b * initiation_max_proportion param) (budget inst)
           \<and> ongoing_budget inst = map (\<lambda>b. b * ongoing_max_proportion param) (budget inst)"
proof (cases "create_random_projects_from_param sd param seed g")
  case (Inl e)
  then show ?thesis using assms by (simp add: generate_instance_def)
next
  case (Inr r)
  obtain ps syns g1 where r: "r = (ps, syns, g1)" by (cases r)
  have c: "create_random_projects_from_param sd param seed g = Inr (ps, syns, g1)"
    using Inr r by simp
  have n: "\<not> planning_window param + max_length_of ps < 0"
  proof
    assume "planning_window param + max_length_of ps < 0"
    then have "generate_instance sd param seed ident g = Inl ValueError"
      by (simp add: generate_instance_def c Let_def)
    then show False using assms by simp
  qed
  from assms have "Inr (inst, param', g') = generate_instance sd param seed ident g" by simp
  also have "\<dots> = Inr (\<lparr> projects = ps,
         budget = map (\<lambda>y. base_budget param + real y * yearly_budget_increase param)
                      [0 ..< nat (planning_window param + max_length_of ps)],
         initiation_budget = map (\<lambda>b. b * initiation_max_proportion param)
               (map (\<lambda>y. base_budget param + real y * yearly_budget_increase param)
                      [0 ..< nat (planning_window param + max_length_of ps)]),
         ongoing_budget = map (\<lambda>b. b * ongoing_max_proportion param)
               (map (\<lambda>y. base_budget param + real y * yearly_budget_increase param)
                      [0 ..< nat (planning_window param + max_length_of ps)]),
         synergies = syns, instance_planning_window = planning_window param,
         instance_identifier = ident, instance_num_projects = length ps,
         budget_window = nat (planning_window param + max_length_of ps),
         instance_discount_rate = discount_rate param,
         parameters = param\<lparr> max_proj_length := Some (max_length_of ps) \<rparr> \<rparr>,
         param\<lparr> max_proj_length := Some (max_length_of ps) \<rparr>, g1)"
    using n by (simp add: generate_instance_def c Let_def)
  finally have "inst = \<lparr> projects = ps,
         budget = map (\<lambda>y. base_budget param + real y * yearly_budget_increase param)
                      [0 ..< nat (planning_window param + max_length_of ps)],
         initiation_budget = map (\<lambda>b. b * initiation_max_proportion param)
               (map (\<lambda>y. base_budget param + real y * yearly_budget_increase param)
                      [0 ..< nat (planning_window param + max_length_of ps)]),
         ongoing_budget = map (\<lambda>b. b * ongoing_max_proportion param)
               (map (\<lambda>y. base_budget param + real y * yearly_budget_increase param)
                      [0 ..< nat (planning_window param + max_length_of ps)]),
         synergies = syns, instance_planning_window = planning_window param,
         instance_identifier = ident, instance_num_projects = length ps,
         budget_window = nat (planning_window param + max_length_of ps),
         instance_discount_rate = discount_rate param,
         parameters = param\<lparr> max_proj_length := Some (max_length_of ps) \<rparr> \<rparr>"
    and "param' = param\<lparr> max_proj_length := Some (max_length_of ps) \<rparr>" and "g' = g1"
    by simp_all
  then show ?thesis using c n by simp
qed

text \<open>
  Claim C8, amended.  For every instance \<open>generate_instance\<close> returns, the budget array has
  length \<open>planning_window\<close> plus the maximum duration of the generated projects (0 when there
  is none), its entry y is \<open>base_budget + y * yearly_budget_increase\<close>, it is non-decreasing
  when the yearly increase is not negative, and the initiation and ongoing budgets are the
  budget array multiplied entry by entry by their proportions.
\<close>

theorem budget_schedule:
  assumes "generate_instance sd param seed ident g = Inr (inst, param', g')"
  shows "int (length (budget inst))
           = planning_window param + Max (insert 0 (duration ` set (projects inst)))
       \<and> (\<forall>y < length (budget inst).
             budget inst ! y = base_budget param + real y * yearly_budget_increase param)
       \<and> (0 \<le> yearly_budget_increase param \<longrightarrow> sorted (budget inst))
       \<and> initiation_budget inst = map (\<lambda>b. b * initiation_max_proportion param) (budget inst)
       \<and> ongoing_budget inst = map (\<lambda>b. b * ongoing_max_proportion param) (budget inst)"
proof -
  from generate_instance_result[OF assms] obtain ps syns where
    r: "0 \<le> planning_window param + max_length_of ps" "projects inst = ps"
       "budget inst = map (\<lambda>y. base_budget param + real y * yearly_budget_increase param)
                              [0 ..< nat (planning_window param + max_length_of ps)]"
       "initiation_budget inst = map (\<lambda>b. b * initiation_max_proportion param) (budget inst)"
       "ongoing_budget inst = map (\<lambda>b. b * ongoing_max_proportion param) (budget inst)"
    by blast
  have len: "int (length (budget inst))
           = planning_window param + Max (insert 0 (duration ` set (projects inst)))"
    using r(1,2,3) by (simp add: max_length_of_Max)
  have nth: "\<forall>y < length (budget inst).
             budget inst ! y = base_budget param + real y * yearly_budget_increase param"
    unfolding r(3) by simp
  have srt: "sorted (budget inst)" if "0 \<le> yearly_budget_increase param"
  proof -
    have "budget inst ! i \<le> budget inst ! j" if "i \<le> j" "j < length (budget inst)" for i j
    proof -
      have "real i * yearly_budget_increase param \<le> real j * yearly_budget_increase param"
        using that \<open>0 \<le> yearly_budget_increase param\<close> by (intro mult_right_mono) simp_all
      then show ?thesis using nth that by simp
    qed
    then show ?thesis by (simp add: sorted_iff_nth_mono)
  qed
  show ?thesis using len nth srt r(4,5) by blast
qed

text \<open>
  Claim C10.  A call of \<open>generate_instance\<close> that completes leaves the caller's parameter
  record with \<open>max_proj_length\<close> set to the maximum duration of the generated projects and
  every other field as it was; the instance holds that same record.
\<close>

theorem max_proj_length_effect:
  assumes "generate_instance sd param seed ident g = Inr (inst, param', g')"
  shows "param' = param\<lparr> max_proj_length := Some (Max (insert 0 (duration ` set (projects inst)))) \<rparr>
       \<and> parameters inst = param'"
  using generate_instance_result[OF assms] by (auto simp: max_length_of_Max)


lemma fold_add_sum: "fold (\<lambda>i (t::real). t + f i) xs a = a + sum_list (map f xs)"
  by (induction xs arbitrary: a) simp_all

lemma total_group_value_sum:
  "total_group_value ps grp = sum_list (map (\<lambda>i. sum_list (pvalue (ps ! i))) grp)"
  unfolding total_group_value_def by (simp add: fold_add_sum)

text \<open>
  Claim C6, amended.  The value of every synergy of a completed run is an integer from 1
  (inclusive) to the sum of the values of all periods of all members of its group
  (exclusive).
\<close>

theorem synergy_value_range:
  assumes "create_random_projects sd N pt et st seed kw g = Inr (ps, syns, g')"
  shows "\<forall>s \<in> set syns. 1 \<le> svalue s
           \<and> real_of_int (svalue s) < sum_list (map (\<lambda>i. sum_list (pvalue (ps ! i))) (project_ids s))"
proof (cases st)
  case None
  then have "syns = []" using assms
    unfolding create_random_projects_def Let_def by (auto split: sum.splits)
  then show ?thesis by simp
next
  case (Some gs)
  then have "\<exists>tp4. generate_synergies_post ps gs tp4 = Inr (syns, g')" using assms
    unfolding create_random_projects_def Let_def by (fastforce split: sum.splits)
  then obtain tp4 where "generate_synergies_post ps gs tp4 = Inr (syns, g')" by blast
  from synergy_pass_value_range[OF this] show ?thesis by (simp add: total_group_value_sum)
qed
section \<open>The concrete run\<close>

lemma rint_nine_fifths: "rint (9 / 5) = 2"
  by (simp add: rint_def Let_def)

lemma run_value: "random_cost_dur_value 1 1 kw0 (Uniform (9 / 10) # Rvs [] # tp) = Inr (9 / 5, tp)"
  by (simp add: random_cost_dur_value_def rvs_def kw0_def)

lemma run_fuzzy: "fuzzy_weibull_cost_distribution T 1 (Normal 1 # Normal 1 # tp) = Inr ([T], tp)"
  by (simp add: fuzzy_weibull_cost_distribution_def weibull_costs_def)

lemma run_make_project:
  "make_project kw0 i 1 1 (project_draws @ tp) = Inr (run_project (i + 1) [] [] [], tp)"
  by (simp add: make_project_def project_draws_def run_fuzzy run_value rint_nine_fifths
        run_project_def)

lemma run_make_projects:
  "make_projects kw0 0 [(1, 1), (1, 1)] (project_draws @ project_draws @ tp)
     = Inr ([run_project 1 [] [] [], run_project 2 [] [] []], tp)"
  using run_make_project[of 0 "project_draws @ tp"] run_make_project[of 1 tp]
  by (simp add: numeral_2_eq_2)

lemma run_exclusions:
  "generate_exclusions_post [run_project 1 [] [] [], run_project 2 [] [] []] [(2, 1)]
       (Choice2 [[0, 1]] # tp)
     = Inr ([run_project 1 [] [] [2], run_project 2 [] [] [1]], tp)"
  by (simp add: generate_exclusions_post_def np_random_choice2_def py_int_def setdiff1d_def
      exclusion_group_def exclusion_inner_def append_exclusion_def numeral_2_eq_2 run_project_def)

lemma sort_1_0: "sort [Suc 0, 0] = [0, Suc 0]"
  by simp

lemma run_prerequisites:
  "generate_prerequisites_post [run_project 1 [] [] [2], run_project 2 [] [] [1]] [(2, 1)]
       (Choice2 [[1, 0]] # tp)
     = Inr (run_projects, tp)"
  by (simp add: generate_prerequisites_post_def np_random_choice2_def py_int_def setdiff1d_def
      prerequisite_group_def append_prerequisite_def append_successor_def numeral_2_eq_2
      run_project_def run_projects_def Let_def)

lemma run_group_value: "total_group_value run_projects [0, Suc 0] = 4"
  by (simp add: total_group_value_def run_projects_def run_project_def)

lemma run_no_conflict: "\<not> group_conflict run_projects [0, Suc 0] 2"
  by (simp add: group_conflict_def run_projects_def run_project_def numeral_2_eq_2)

lemma run_synergy_group:
  "synergy_group run_projects [0 ..< 2] 2 (Choice1 [0, 1] # tp) = Inr ([0, 1], tp)"
  using run_no_conflict by (simp add: numeral_2_eq_2)

lemma run_synergies:
  "generate_synergies_post run_projects [(2, 1)] [Choice1 [0, 1], RandInt 1]
     = Inr ([\<lparr> project_ids = [0, 1], svalue = 1 \<rparr>], [])"
proof -
  have l: "length run_projects = 2" by (simp add: run_projects_def)
  have n: "nat (py_int (1 * real (length run_projects) / real 2)) = Suc 0"
    by (simp add: l py_int_def)
  have m: "make_synergy run_projects [0 ..< 2] 2 [Choice1 [0, 1], RandInt 1]
             = Inr (\<lparr> project_ids = [0, 1], svalue = 1 \<rparr>, [])"
    using run_synergy_group[of "[RandInt 1]"]
    by (simp add: make_synergy_def run_group_value np_random_randint_def py_int_def)
  show ?thesis
    unfolding generate_synergies_post_def l
    using n m l by simp
qed

lemma run_result:
  "create_random_projects (\<lambda>_. run_tape) 2 (Some [(2, 1)]) (Some [(2, 1)]) (Some [(2, 1)]) 1 kw0 []
     = Inr (run_projects, [\<lparr> project_ids = [0, 1], svalue = 1 \<rparr>], [])"
proof -
  have a: "mvlnorm_generate_costdur 2 run_tape
             = Inr ([(1, 1), (1, 1)], project_draws @ project_draws
                      @ [Choice2 [[0, 1]], Choice2 [[1, 0]], Choice1 [0, 1], RandInt 1])"
    by (simp add: run_tape_def rint_def)
  show ?thesis
    unfolding create_random_projects_def Let_def
    by (simp only: a run_make_projects run_exclusions run_prerequisites run_synergies
          sum.case prod.case option.case)
qed

lemma run_projects_nth:
  "run_projects ! 0 = run_project 1 [] [2] [2]" "run_projects ! 1 = run_project 2 [1] [] [1]"
  by (simp_all add: run_projects_def)

text \<open>
  Claim C2 on the concrete run.  The two projects exclude each other: the exclusion list of
  each holds the id of the other.  The synergy pass tests the entry 1 of the drawn group, an
  index, against the exclusion list [2] of project 1, a list of ids, finds no conflict and
  accepts the group of both.
\<close>

theorem synergy_of_excluding_projects:
  "create_random_projects (\<lambda>_. run_tape) 2 (Some [(2, 1)]) (Some [(2, 1)]) (Some [(2, 1)]) 1 kw0 []
     = Inr (run_projects, [\<lparr> project_ids = [0, 1], svalue = 1 \<rparr>], [])
   \<and> project_id (run_projects ! 1) \<in> set (exclusion_list (run_projects ! 0))
   \<and> project_id (run_projects ! 0) \<in> set (exclusion_list (run_projects ! 1))"
  using run_result by (simp add: run_projects_def run_project_def)



theorem exclusion_symmetric_no_self_witness:
  "create_random_projects (\<lambda>_. run_tape) 2 (Some [(2, 1)]) (Some [(2, 1)]) (Some [(2, 1)]) 1 kw0 []
     = Inr (run_projects, [\<lparr> project_ids = [0, 1], svalue = 1 \<rparr>], [])
   \<and> list_all (\<lambda>p. list_all (\<lambda>q.
          (project_id q \<in> set (exclusion_list p)) = (project_id p \<in> set (exclusion_list q)))
            run_projects) run_projects
   \<and> list_all (\<lambda>p. project_id p \<notin> set (prerequisite_list p)
             \<and> project_id p \<notin> set (successor_list p)
             \<and> project_id p \<notin> set (exclusion_list p)) run_projects"
  using exclusion_symmetric_no_self[OF run_result] run_result by (simp only: list_all_iff simp_thms)



theorem synergy_value_counterexample:
  "create_random_projects (\<lambda>_. run_tape) 2 (Some [(2, 1)]) (Some [(2, 1)]) (Some [(2, 1)]) 1 kw0 []
     = Inr (run_projects, [\<lparr> project_ids = [0, 1], svalue = 1 \<rparr>], [])
   \<and> \<not> 1 < svalue \<lparr> project_ids = [0, 1], svalue = 1 \<rparr>"
  using run_result by simp

theorem synergy_value_range_witness:
  "create_random_projects (\<lambda>_. run_tape) 2 (Some [(2, 1)]) (Some [(2, 1)]) (Some [(2, 1)]) 1 kw0 []
     = Inr (run_projects, [\<lparr> project_ids = [0, 1], svalue = 1 \<rparr>], [])
   \<and> list_all (\<lambda>s. 1 \<le> svalue s
         \<and> real_of_int (svalue s)
             < sum_list (map (\<lambda>i. sum_list (pvalue (run_projects ! i))) (project_ids s)))
       [\<lparr> project_ids = [0, 1], svalue = 1 \<rparr>]"
  using synergy_value_range[OF run_result] run_result by (simp only: list_all_iff simp_thms)

lemma zero_synergy_group:
  "synergy_group [zero_project 1, zero_project 2] [0, 1] 2 [Choice1 [0, 1]] = Inr ([0, 1], [])"
  by (simp add: group_conflict_def zero_project_def numeral_2_eq_2)

lemma zero_group_value: "total_group_value [zero_project 1, zero_project 2] [0, 1] \<le> 1"
  by (simp add: total_group_value_def zero_project_def)

theorem synergy_value_degenerate_raises_witness:
  "synergy_group [zero_project 1, zero_project 2] [0, 1] 2 [Choice1 [0, 1]] = Inr ([0, 1], [])
   \<and> total_group_value [zero_project 1, zero_project 2] [0, 1] \<le> 1
   \<and> make_synergy [zero_project 1, zero_project 2] [0, 1] 2 [Choice1 [0, 1]] = Inl ValueError"
  using synergy_value_degenerate_raises[OF zero_synergy_group zero_group_value]
    zero_synergy_group zero_group_value by simp
subsection \<open>The instance of the concrete run\<close>

lemma run_max_length: "max_length_of run_projects = 1"
  by (simp add: max_length_of_def run_projects_def run_project_def)

lemma run_from_param:
  "create_random_projects_from_param (\<lambda>_. run_tape) (run_params increase) 1 []
     = Inr (run_projects, [\<lparr> project_ids = [0, 1], svalue = 1 \<rparr>], [])"
  using run_result by (simp add: create_random_projects_from_param_def run_params_def)

lemma run_generate_instance:
  "generate_instance (\<lambda>_. run_tape) (run_params increase) 1 ''Instance 1'' []
     = Inr (run_instance increase, (run_params increase)\<lparr> max_proj_length := Some 1 \<rparr>, [])"
proof -
  have u: "[0 ..< 2] = [0, Suc 0]" by (simp add: numeral_2_eq_2)
  have l: "length run_projects = 2" by (simp add: run_projects_def)
  show ?thesis
    unfolding generate_instance_def run_from_param
    by (simp add: Let_def run_max_length u l run_instance_def run_params_def algebra_simps)
qed

theorem budget_non_decreasing_counterexample:
  "generate_instance (\<lambda>_. run_tape) (run_params (- 1)) 1 ''Instance 1'' []
     = Inr (run_instance (- 1), (run_params (- 1))\<lparr> max_proj_length := Some 1 \<rparr>, [])
   \<and> budget (run_instance (- 1)) = [10, 9]
   \<and> \<not> sorted (budget (run_instance (- 1)))"
  using run_generate_instance[of "- 1"] by (simp add: run_instance_def)

theorem budget_schedule_witness:
  "generate_instance (\<lambda>_. run_tape) (run_params 1) 1 ''Instance 1'' []
     = Inr (run_instance 1, (run_params 1)\<lparr> max_proj_length := Some 1 \<rparr>, [])
   \<and> 0 \<le> yearly_budget_increase (run_params 1)
   \<and> int (length (budget (run_instance 1)))
        = planning_window (run_params 1) + Max (insert 0 (duration ` set (projects (run_instance 1))))
   \<and> list_all (\<lambda>y. budget (run_instance 1) ! y
                       = base_budget (run_params 1) + real y * yearly_budget_increase (run_params 1))
        [0 ..< length (budget (run_instance 1))]
   \<and> sorted (budget (run_instance 1))
   \<and> initiation_budget (run_instance 1)
        = map (\<lambda>b. b * initiation_max_proportion (run_params 1)) (budget (run_instance 1))
   \<and> ongoing_budget (run_instance 1)
        = map (\<lambda>b. b * ongoing_max_proportion (run_params 1)) (budget (run_instance 1))"
proof -
  note t = budget_schedule[OF run_generate_instance[of 1]]
  have i: "0 \<le> yearly_budget_increase (run_params 1)" by (simp add: run_params_def)
  have "list_all (\<lambda>y. budget (run_instance 1) ! y
                       = base_budget (run_params 1) + real y * yearly_budget_increase (run_params 1))
        [0 ..< length (budget (run_instance 1))]"
    using t by (simp add: list_all_iff)
  moreover have "sorted (budget (run_instance 1))" using t i by blast
  ultimately show ?thesis using t i run_generate_instance[of 1] by blast
qed

theorem max_proj_length_effect_witness:
  "generate_instance (\<lambda>_. run_tape) (run_params 1) 1 ''Instance 1'' []
     = Inr (run_instance 1, (run_params 1)\<lparr> max_proj_length := Some 1 \<rparr>, [])
   \<and> (run_params 1)\<lparr> max_proj_length := Some 1 \<rparr>
       = (run_params 1)\<lparr> max_proj_length :=
            Some (Max (insert 0 (duration ` set (projects (run_instance 1))))) \<rparr>
   \<and> parameters (run_instance 1) = (run_params 1)\<lparr> max_proj_length := Some 1 \<rparr>"
  using max_proj_length_effect[OF run_generate_instance[of 1]] run_generate_instance[of 1]
  by blast


end
